theory Spec2Isabelle
  imports Main "HOL-Library.AList" "HOL-Library.Sublist"
begin

section \<open>Go values\<close>

text \<open>
  A Go \<^verbatim>\<open>string\<close> is a sequence of bytes, modelled as \<^typ>\<open>string\<close>. A Go
  \<^verbatim>\<open>map[string]T\<close> is modelled as an association list with \<^const>\<open>map_of\<close> for the
  lookup and \<^const>\<open>AList.update\<close> for the assignment \<^verbatim>\<open>m[k] = v\<close>. A \<^verbatim>\<open>range\<close> loop over a
  map visits the entries in list order; Go leaves that order unspecified, and the
  theorems below hold for every list, hence for every order. A \<^verbatim>\<open>nil\<close> map and an empty
  map are both the empty list (the program only ranges over them and looks keys up).
\<close>

type_synonym 'v gomap = "(string \<times> 'v) list"

type_synonym foundmap = "string list gomap"

text \<open>\<^verbatim>\<open>found[n]\<close> read as a value: the \<^verbatim>\<open>nil\<close> slice when the key is missing.\<close>

definition at :: "foundmap \<Rightarrow> string \<Rightarrow> string list" where
  "at m n = (case map_of m n of None \<Rightarrow> [] | Some vs \<Rightarrow> vs)"

text \<open>A run-time panic, and the \<^verbatim>\<open>error\<close> values the package returns or prints.\<close>

datatype panic = IndexOutOfRange | NilDereference

datatype error =
    ReadFailed
  | CouldNotParseLine string
  | ErrorOpening string
  | ErrorReading string error

datatype failure = Panic panic | Error error

subsection \<open>The functions of \<^verbatim>\<open>strings\<close>, \<^verbatim>\<open>unicode\<close> and \<^verbatim>\<open>strconv\<close> the package calls\<close>

text \<open>
  Three library functions read the Unicode tables: \<^verbatim>\<open>strings.TrimSpace\<close>,
  \<^verbatim>\<open>strings.ToUpper\<close>, and \<^verbatim>\<open>strings.TrimLeftFunc\<close> with the test of \<^verbatim>\<open>configName\<close>
  (\<^verbatim>\<open>!unicode.IsLetter(r) && !unicode.IsNumber(r)\<close>). On a string of ASCII bytes what they
  compute is written out below. On a string with a byte from \<^verbatim>\<open>0x80\<close> on, the result
  depends on the tables (and on the decoding of UTF-8), which are not part of the program:
  there each function is a parameter, a field of the record \<open>Unicode\<close>. Every function
  below that calls one of the three takes the record as its first argument \<open>U\<close>, and what
  is proved with \<open>U\<close> free holds whatever the library computes on such strings.
\<close>

record Unicode =
  trimSpaceU :: "string \<Rightarrow> string"
  trimLeftDelimsU :: "string \<Rightarrow> string"
  toUpperU :: "string \<Rightarrow> string"

definition isASCII :: "string \<Rightarrow> bool" where
  "isASCII s = list_all (\<lambda>c. (of_char c :: nat) < 128) s"

text \<open>The white space of the ASCII range: \<^verbatim>\<open>\t\<close>, \<^verbatim>\<open>\n\<close>, \<^verbatim>\<open>\v\<close>, \<^verbatim>\<open>\f\<close>, \<^verbatim>\<open>\r\<close> and the space.\<close>

definition isSpace :: "char \<Rightarrow> bool" where
  "isSpace c = (c = CHR 0x09 \<or> c = CHR 0x0A \<or> c = CHR 0x0B \<or> c = CHR 0x0C \<or> c = CHR 0x0D \<or> c = CHR 0x20)"

definition TrimSpace :: "Unicode \<Rightarrow> string \<Rightarrow> string" where
  "TrimSpace U s =
     (if isASCII s then rev (dropWhile isSpace (rev (dropWhile isSpace s)))
      else trimSpaceU U s)"

text \<open>The letters and the numbers of the ASCII range.\<close>

definition isLetterASCII :: "char \<Rightarrow> bool" where
  "isLetterASCII c = (let n = (of_char c :: nat) in (65 \<le> n \<and> n \<le> 90) \<or> (97 \<le> n \<and> n \<le> 122))"

definition isNumberASCII :: "char \<Rightarrow> bool" where
  "isNumberASCII c = (let n = (of_char c :: nat) in 48 \<le> n \<and> n \<le> 57)"

text \<open>
  \<^verbatim>\<open>strings.TrimLeftFunc(s, func(r rune) bool { return !unicode.IsLetter(r) && !unicode.IsNumber(r) })\<close>
\<close>

definition TrimLeftDelims :: "Unicode \<Rightarrow> string \<Rightarrow> string" where
  "TrimLeftDelims U s =
     (if isASCII s then dropWhile (\<lambda>r. \<not> isLetterASCII r \<and> \<not> isNumberASCII r) s
      else trimLeftDelimsU U s)"

definition ToUpper :: "Unicode \<Rightarrow> string \<Rightarrow> string" where
  "ToUpper U s =
     (if isASCII s
      then map (\<lambda>c. let n = (of_char c :: nat) in
                     if 97 \<le> n \<and> n \<le> 122 then char_of (n - 32) else c) s
      else toUpperU U s)"

text \<open>\<^verbatim>\<open>strings.Replace(s, "-", "_", -1)\<close>.\<close>

definition ReplaceDash :: "string \<Rightarrow> string" where
  "ReplaceDash s = map (\<lambda>c. if c = CHR ''-'' then CHR ''_'' else c) s"

text \<open>
  \<^verbatim>\<open>strings.SplitN(s, sep, 2)\<close> for a separator of one byte: the string itself when the
  separator does not occur, else the part before the first separator and the part after.
\<close>

definition SplitN2 :: "string \<Rightarrow> char \<Rightarrow> string list" where
  "SplitN2 s sep =
     (case dropWhile (\<lambda>c. c \<noteq> sep) s of
        [] \<Rightarrow> [s]
      | _ # after \<Rightarrow> [takeWhile (\<lambda>c. c \<noteq> sep) s, after])"

definition HasSuffix :: "string \<Rightarrow> string \<Rightarrow> bool" where
  "HasSuffix s sfx = (length sfx \<le> length s \<and> drop (length s - length sfx) s = sfx)"

text \<open>\<^verbatim>\<open>strconv.Atoi\<close> with a 64-bit \<^verbatim>\<open>int\<close>: an optional sign, then decimal digits.\<close>

definition Atoi :: "string \<Rightarrow> int option" where
  "Atoi s =
     (let neg = (take 1 s = ''-'');
          ds = (if take 1 s = ''-'' \<or> take 1 s = ''+'' then drop 1 s else s);
          v = foldl (\<lambda>a c. 10 * a + (int (of_char c) - 48)) 0 ds;
          n = (if neg then - v else v)
      in if ds \<noteq> [] \<and> list_all isNumberASCII ds \<and> - (2 ^ 63) \<le> n \<and> n \<le> 2 ^ 63 - 1
         then Some n else None)"

section \<open>Parameters and the registry\<close>

text \<open>\<^verbatim>\<open>DefaultMulti\<close> is \<^const>\<open>None\<close> for the \<^verbatim>\<open>nil\<close> slice.\<close>

record Param =
  Name :: string
  Aliases :: "string list"
  Description :: string
  Default :: string
  DefaultMulti :: "string list option"
  Flag :: bool
  DisallowInConfigFile :: bool

definition configName :: "Unicode \<Rightarrow> Param \<Rightarrow> string" where
  "configName U p = TrimLeftDelims U (Name p)"

definition flagDefault :: "Param \<Rightarrow> bool" where
  "flagDefault p = (Default p = ''true'')"

record Opts =
  DefaultConfigFile :: string
  HelpHeader :: string
  HelpFooter :: string
  DisallowConfigFile :: bool
  AllowMissingConfigFile :: bool

text \<open>The field \<^verbatim>\<open>o\<close> of the source is \<open>opts\<close> here.\<close>

record Lever =
  appName :: string
  opts :: Opts
  expected :: "Param gomap"
  expectedFull :: "Param gomap"
  found :: foundmap
  remaining :: "string list"

definition Add :: "Lever \<Rightarrow> Param \<Rightarrow> Lever" where
  "Add f p =
     f\<lparr>expected := AList.update (Name p) p (expected f),
       expectedFull :=
         fold (\<lambda>alias m. AList.update alias p m) (Aliases p)
           (AList.update (Name p) p (expectedFull f))\<rparr>"

definition New :: "string \<Rightarrow> Opts option \<Rightarrow> Lever" where
  "New name ob =
     (let ov = (case ob of
                  None \<Rightarrow> \<lparr>DefaultConfigFile = [], HelpHeader = [], HelpFooter = [],
                            DisallowConfigFile = False, AllowMissingConfigFile = False\<rparr>
                | Some x \<Rightarrow> x);
          f0 = \<lparr>appName = name, opts = ov, expected = [], expectedFull = [],
                found = [], remaining = []\<rparr>;
          f1 = (if \<not> DisallowConfigFile ov
                then Add
                       (Add f0
                          \<lparr>Name = ''--config'', Aliases = [''-config''],
                           Description = ''Configuration file to load'',
                           Default = DefaultConfigFile ov, DefaultMulti = None,
                           Flag = False, DisallowInConfigFile = True\<rparr>)
                       \<lparr>Name = ''--example'', Aliases = [''-example''],
                        Description = ''Dump an example configuration, filled with default values, to stdout'',
                        Default = [], DefaultMulti = None,
                        Flag = True, DisallowInConfigFile = True\<rparr>
                else f0)
      in Add f1
           \<lparr>Name = ''--help'', Aliases = [''-help'', ''-h''],
            Description = ''Print this help message'',
            Default = [], DefaultMulti = None,
            Flag = True, DisallowInConfigFile = True\<rparr>)"

section \<open>The command line\<close>

text \<open>
  The loop of \<^verbatim>\<open>readCLI\<close>, with the map \<^verbatim>\<open>found\<close> (here \<open>fnd\<close>), the slice
  \<^verbatim>\<open>remaining\<close> (here \<open>rest\<close>) and the arguments still to read.
\<close>

fun readCLI_loop :: "Lever \<Rightarrow> foundmap \<Rightarrow> string list \<Rightarrow> string list \<Rightarrow> foundmap \<times> string list" where
  "readCLI_loop f fnd rest [] = (fnd, rest)"
| "readCLI_loop f fnd rest (arg # args) =
     (if arg = ''--'' then (fnd, rest @ args)
      else
        let argParts = SplitN2 arg CHR ''='';
            argName = hd argParts;
            argValOk = (length argParts = 2);
            argVal = (if argValOk then argParts ! 1 else [])
        in case map_of (expectedFull f) argName of
             None \<Rightarrow> readCLI_loop f fnd (rest @ [arg]) args
           | Some p \<Rightarrow>
               if Flag p then
                 (if flagDefault p
                  then readCLI_loop f (AList.update (Name p) (at fnd (Name p) @ [''false'']) fnd) rest args
                  else readCLI_loop f (AList.update (Name p) (at fnd (Name p) @ [''true'']) fnd) rest args)
               else if \<not> argValOk \<and> args \<noteq> []
               then readCLI_loop f (AList.update (Name p) (at fnd (Name p) @ [hd args]) fnd) rest (tl args)
               else readCLI_loop f (AList.update (Name p) (at fnd (Name p) @ [argVal]) fnd) rest args)"

definition readCLI :: "Lever \<Rightarrow> string list \<Rightarrow> foundmap \<times> string list" where
  "readCLI f args = readCLI_loop f [] [] args"

section \<open>The configuration file\<close>

text \<open>
  An \<^verbatim>\<open>io.Reader\<close> gives its bytes and then either \<^verbatim>\<open>io.EOF\<close> or, when \<open>fails\<close>
  holds, another error. \<^verbatim>\<open>bufio.Reader.ReadString\<close> returns the bytes up to and including
  the delimiter; when the bytes end before a delimiter it returns what is left together
  with the reader's error.
\<close>

datatype io_error = EOF | IOError

record Reader =
  bytes :: string
  fails :: bool

definition ReadString :: "Reader \<Rightarrow> char \<Rightarrow> string \<times> io_error option \<times> Reader" where
  "ReadString rr delim =
     (case dropWhile (\<lambda>c. c \<noteq> delim) (bytes rr) of
        [] \<Rightarrow> (bytes rr, Some (if fails rr then IOError else EOF), rr\<lparr>bytes := []\<rparr>)
      | d # after \<Rightarrow> (takeWhile (\<lambda>c. c \<noteq> delim) (bytes rr) @ [d], None, rr\<lparr>bytes := after\<rparr>))"

text \<open>The inner loop of \<^verbatim>\<open>readConfig\<close>, over the expected parameters.\<close>

definition appendMatching :: "string \<Rightarrow> string \<Rightarrow> Param gomap \<Rightarrow> foundmap \<Rightarrow> foundmap" where
  "appendMatching name val ps fnd =
     fold (\<lambda>(n, p) acc. if \<not> HasSuffix n name then acc
                         else AList.update n (at acc n @ [val]) acc) ps fnd"

function readConfig_loop :: "Unicode \<Rightarrow> Lever \<Rightarrow> foundmap \<Rightarrow> Reader \<Rightarrow> error + foundmap" where
  "readConfig_loop U f fnd rr =
     (case ReadString rr CHR 0x0A of
        (line, Some EOF, rr') \<Rightarrow> Inr fnd
      | (line, Some IOError, rr') \<Rightarrow> Inl ReadFailed
      | (line, None, rr') \<Rightarrow>
          (let line = TrimSpace U line in
           if line = [] \<or> hd line = CHR ''#'' then readConfig_loop U f fnd rr'
           else
             let parts = SplitN2 line CHR '':'' in
             if length parts \<noteq> 2 then Inl (CouldNotParseLine line)
             else readConfig_loop U f
                    (appendMatching (parts ! 0) (TrimSpace U (parts ! 1)) (expected f) fnd) rr'))"
  by pat_completeness auto

lemma ReadString_shorter:
  assumes "(line, None, rr') = ReadString rr d"
  shows "length (bytes rr') < length (bytes rr)"
proof (cases "dropWhile (\<lambda>c. c \<noteq> d) (bytes rr)")
  case Nil
  with assms show ?thesis by (simp add: ReadString_def)
next
  case (Cons x after)
  with assms have "bytes rr' = after" by (simp add: ReadString_def)
  moreover have "length (x # after) \<le> length (bytes rr)"
    using length_dropWhile_le [of "\<lambda>c. c \<noteq> d" "bytes rr"] Cons by simp
  ultimately show ?thesis by simp
qed

termination readConfig_loop
proof (relation "measure (\<lambda>(U, f, fnd, rr). length (bytes rr))")
  show "wf (measure (\<lambda>(U, f, fnd, rr). length (bytes rr)))" by simp
qed (simp_all add: ReadString_shorter)

declare readConfig_loop.simps [simp del]

definition readConfig :: "Unicode \<Rightarrow> Lever \<Rightarrow> Reader \<Rightarrow> error + foundmap" where
  "readConfig U f r = readConfig_loop U f [] r"

text \<open>
  \<^verbatim>\<open>os.Open\<close>: the file system is a function from a file name to what opening it gives.
\<close>

datatype open_result = NotExist | OpenFailed | Opened Reader

text \<open>
  The first lines of \<^verbatim>\<open>maybeReadConfig\<close>: the name of the file to read, if any.
  \<^verbatim>\<open>c[0]\<close> panics on an empty slice, and \<^verbatim>\<open>f.expected["--config"].Default\<close> on a missing
  parameter (a nil pointer).
\<close>

definition configFileName :: "Lever \<Rightarrow> foundmap \<Rightarrow> panic + string option" where
  "configFileName f fnd =
     (let fromDefault =
            (case map_of (expected f) ''--config'' of
               None \<Rightarrow> Inl NilDereference
             | Some p \<Rightarrow> if Default p \<noteq> [] then Inr (Some (Default p)) else Inr None)
      in case map_of fnd ''--config'' of
           None \<Rightarrow> fromDefault
         | Some [] \<Rightarrow> Inl IndexOutOfRange
         | Some (c0 # cs) \<Rightarrow> if c0 \<noteq> [] then Inr (Some c0) else fromDefault)"

definition maybeReadConfig :: "Unicode \<Rightarrow> Lever \<Rightarrow> foundmap \<Rightarrow> (string \<Rightarrow> open_result) \<Rightarrow> failure + foundmap" where
  "maybeReadConfig U f fnd fs =
     (case configFileName f fnd of
        Inl pn \<Rightarrow> Inl (Panic pn)
      | Inr None \<Rightarrow> Inr []
      | Inr (Some fn) \<Rightarrow>
          (case fs fn of
             NotExist \<Rightarrow>
               if AllowMissingConfigFile (opts f) then Inr [] else Inl (Error (ErrorOpening fn))
           | OpenFailed \<Rightarrow> Inl (Error (ErrorOpening fn))
           | Opened fd \<Rightarrow>
               (case readConfig U f fd of
                  Inl e \<Rightarrow> Inl (Error (ErrorReading fn e))
                | Inr foundConfig \<Rightarrow> Inr foundConfig)))"

section \<open>The environment\<close>

definition envify :: "Unicode \<Rightarrow> string \<Rightarrow> string" where
  "envify U s = ReplaceDash (ToUpper U s)"

text \<open>
  The first loop of \<^verbatim>\<open>readEnv\<close>: the key \<^verbatim>\<open>appNameEnv + "_" + envify(p.configName())\<close>
  of a parameter, and the map \<^verbatim>\<open>expectedEnv\<close> from the keys to the parameters.
\<close>

definition envKey :: "Unicode \<Rightarrow> Lever \<Rightarrow> Param \<Rightarrow> string" where
  "envKey U f p = envify U (appName f) @ ''_'' @ envify U (configName U p)"

definition expectedEnv :: "Unicode \<Rightarrow> Lever \<Rightarrow> Param gomap" where
  "expectedEnv U f = fold (\<lambda>(n, p) m. AList.update (envKey U f p) p m) (expected f) []"

text \<open>The second loop; \<^verbatim>\<open>parts[1]\<close> panics when the entry has no \<^verbatim>\<open>=\<close>.\<close>

fun readEnv_loop :: "Param gomap \<Rightarrow> foundmap \<Rightarrow> string list \<Rightarrow> panic + foundmap" where
  "readEnv_loop ee fnd [] = Inr fnd"
| "readEnv_loop ee fnd (env # environ) =
     (case SplitN2 env CHR ''='' of
        [name, val] \<Rightarrow>
          (case map_of ee name of
             Some p \<Rightarrow> readEnv_loop ee (AList.update (Name p) (at fnd (Name p) @ [val]) fnd) environ
           | None \<Rightarrow> readEnv_loop ee fnd environ)
      | _ \<Rightarrow> Inl IndexOutOfRange)"

definition readEnv :: "Unicode \<Rightarrow> Lever \<Rightarrow> string list \<Rightarrow> panic + foundmap" where
  "readEnv U f environ = readEnv_loop (expectedEnv U f) [] environ"

section \<open>Defaults and the merge\<close>

definition defaultsAsFound :: "Lever \<Rightarrow> foundmap" where
  "defaultsAsFound f =
     fold (\<lambda>(n, p) fnd.
             case DefaultMulti p of
               Some dm \<Rightarrow> AList.update n dm fnd
             | None \<Rightarrow> if Default p \<noteq> [] then AList.update n [Default p] fnd else fnd)
       (expected f) []"

fun mergeFound :: "foundmap \<Rightarrow> foundmap \<Rightarrow> foundmap" where
  "mergeFound into [] = into"
| "mergeFound into ((n, p) # from) =
     (if map_of into n = None then mergeFound (AList.update n p into) from
      else mergeFound into from)"

section \<open>Parse\<close>

text \<open>
  \<^verbatim>\<open>Parse\<close> reads \<^verbatim>\<open>os.Args[1:]\<close>, \<^verbatim>\<open>os.Environ()\<close> and the file system, here its
  arguments. It returns with \<^verbatim>\<open>f.found\<close> and \<^verbatim>\<open>f.remaining\<close> set, or leaves the process:
  with status 0 after the help or the example text, with status 1 after an error message,
  or by a panic. The texts printed are not part of the model.
\<close>

datatype outcome = Returned Lever | ExitHelp | ExitExample | ExitError error | Panicked panic

text \<open>\<^verbatim>\<open>v, ok := found[name]; ok && v[0] == "true"\<close>\<close>

definition firstIsTrue :: "foundmap \<Rightarrow> string \<Rightarrow> panic + bool" where
  "firstIsTrue fnd name =
     (case map_of fnd name of
        None \<Rightarrow> Inr False
      | Some [] \<Rightarrow> Inl IndexOutOfRange
      | Some (v # vs) \<Rightarrow> Inr (v = ''true''))"

definition Parse :: "Unicode \<Rightarrow> Lever \<Rightarrow> string list \<Rightarrow> string list \<Rightarrow> (string \<Rightarrow> open_result) \<Rightarrow> outcome" where
  "Parse U f args environ fs =
     (case readCLI f args of (fnd, rest) \<Rightarrow>
     (case firstIsTrue fnd ''--help'' of
        Inl pn \<Rightarrow> Panicked pn
      | Inr True \<Rightarrow> ExitHelp
      | Inr False \<Rightarrow>
     (case firstIsTrue fnd ''--example'' of
        Inl pn \<Rightarrow> Panicked pn
      | Inr True \<Rightarrow> ExitExample
      | Inr False \<Rightarrow>
     (case readEnv U f environ of
        Inl pn \<Rightarrow> Panicked pn
      | Inr foundEnv \<Rightarrow>
     (case (if \<not> DisallowConfigFile (opts f)
            then maybeReadConfig U f (mergeFound fnd foundEnv) fs
            else Inr []) of
        Inl (Panic pn) \<Rightarrow> Panicked pn
      | Inl (Error e) \<Rightarrow> ExitError e
      | Inr foundConfig \<Rightarrow>
          Returned
            (f\<lparr>found := mergeFound (mergeFound (mergeFound fnd foundEnv) foundConfig)
                          (defaultsAsFound f),
               remaining := rest\<rparr>))))))"

section \<open>Accessors\<close>

definition paramSingleStr :: "Lever \<Rightarrow> string \<Rightarrow> panic + (string \<times> bool)" where
  "paramSingleStr f name =
     (case map_of (found f) name of
        Some [] \<Rightarrow> Inl IndexOutOfRange
      | Some (v # vs) \<Rightarrow> Inr (v, True)
      | None \<Rightarrow> Inr ([], False))"

definition ParamStr :: "Lever \<Rightarrow> string \<Rightarrow> panic + (string \<times> bool)" where
  "ParamStr f name = paramSingleStr f name"

definition ParamStrs :: "Lever \<Rightarrow> string \<Rightarrow> string list \<times> bool" where
  "ParamStrs f name =
     (case map_of (found f) name of None \<Rightarrow> ([], False) | Some vs \<Rightarrow> (vs, True))"

definition ParamInt :: "Lever \<Rightarrow> string \<Rightarrow> panic + (int \<times> bool)" where
  "ParamInt f name =
     (case paramSingleStr f name of
        Inl pn \<Rightarrow> Inl pn
      | Inr (v, ok) \<Rightarrow>
          if \<not> ok then Inr (0, False)
          else (case Atoi v of None \<Rightarrow> Inr (0, False) | Some i \<Rightarrow> Inr (i, True)))"

fun atoiAll :: "string list \<Rightarrow> int list option" where
  "atoiAll [] = Some []"
| "atoiAll (v # vs) =
     (case Atoi v of
        None \<Rightarrow> None
      | Some i \<Rightarrow> (case atoiAll vs of None \<Rightarrow> None | Some is \<Rightarrow> Some (i # is)))"

definition ParamInts :: "Lever \<Rightarrow> string \<Rightarrow> int list \<times> bool" where
  "ParamInts f name =
     (case ParamStrs f name of
        (vs, ok) \<Rightarrow>
          if \<not> ok then ([], False)
          else (case atoiAll vs of None \<Rightarrow> ([], False) | Some is \<Rightarrow> (is, True)))"

definition ParamFlag :: "Lever \<Rightarrow> string \<Rightarrow> panic + bool" where
  "ParamFlag f name =
     (case paramSingleStr f name of
        Inl pn \<Rightarrow> Inl pn
      | Inr (v, ok) \<Rightarrow>
          (case map_of (expectedFull f) name of
             None \<Rightarrow> Inr (v \<noteq> [])
           | Some p \<Rightarrow>
               if v = [] \<or> v = ''false'' then Inr (flagDefault p) else Inr (\<not> flagDefault p)))"

definition ParamRest :: "Lever \<Rightarrow> string list" where
  "ParamRest f = remaining f"

section \<open>Registries of the tests and of the examples\<close>

text \<open>
  The examples are ASCII text, on which the parameters of \<open>Unicode\<close> are never consulted.
  Where an example has to be a closed statement, the parameters are the identity.
\<close>

definition noUnicode :: Unicode where
  "noUnicode = \<lparr>trimSpaceU = (\<lambda>s. s), trimLeftDelimsU = (\<lambda>s. s), toUpperU = (\<lambda>s. s)\<rparr>"

text \<open>The composite literal \<^verbatim>\<open>Param{Name: n}\<close>: every other field has its zero value.\<close>

definition ParamNamed :: "string \<Rightarrow> Param" where
  "ParamNamed n =
     \<lparr>Name = n, Aliases = [], Description = [], Default = [], DefaultMulti = None,
      Flag = False, DisallowInConfigFile = False\<rparr>"

text \<open>\<^verbatim>\<open>testLever\<close> of the package's tests.\<close>

definition testLever :: "bool \<Rightarrow> Lever" where
  "testLever disallowConfig =
     (let f = New ''test-app''
                (Some \<lparr>DefaultConfigFile = [], HelpHeader = [], HelpFooter = [],
                       DisallowConfigFile = disallowConfig, AllowMissingConfigFile = False\<rparr>);
          f = Add f (ParamNamed ''--foo'');
          f = Add f ((ParamNamed ''--flag1'')\<lparr>Flag := True\<rparr>);
          f = Add f ((ParamNamed ''--bar'')\<lparr>Aliases := [''-b''], Description := ''wut''\<rparr>);
          f = Add f ((ParamNamed ''--baz'')\<lparr>Aliases := [''-c''], Description := ''wut'',
                                            Default := ''wat''\<rparr>);
          f = Add f ((ParamNamed ''--flag2'')\<lparr>Flag := True\<rparr>);
          f = Add f ((ParamNamed ''--buz'')\<lparr>Aliases := [''-d''], Description := ''wut'',
                                            DefaultMulti := Some [''a'', ''b'', ''c'']\<rparr>)
      in Add f ((ParamNamed ''--byz'')\<lparr>DefaultMulti := Some []\<rparr>))"

text \<open>The registry of \<^verbatim>\<open>TestReadEnv\<close>.\<close>

definition envLever :: Lever where
  "envLever = Add (testLever False) (ParamNamed ''--foo-bar'')"

text \<open>A file system with no file, and one with the single file \<^verbatim>\<open>app.conf\<close>.\<close>

definition noFiles :: "string \<Rightarrow> open_result" where
  "noFiles fn = NotExist"

definition oneFile :: "string \<Rightarrow> open_result" where
  "oneFile fn =
     (if fn = ''app.conf''
      then Opened \<lparr>bytes = ''buz: filebuz\<newline>bar: filebar\<newline>foo: filefoo\<newline>'', fails = False\<rparr>
      else NotExist)"

text \<open>A flag that is on unless it is given: \<^verbatim>\<open>Param{Name: "--color", Flag: true, Default: "true"}\<close>.\<close>

definition colorLever :: Lever where
  "colorLever = Add (New ''app'' None) ((ParamNamed ''--color'')\<lparr>Flag := True, Default := ''true''\<rparr>)"

text \<open>A parameter whose name is the token that ends the options.\<close>

definition dashLever :: Lever where
  "dashLever = Add (New ''app'' None) (ParamNamed ''--'')"

text \<open>
  Two parameters with one file-name form. As Go maps the two registries are the same; the
  lists differ in the order of the two entries, which is the order of the \<^verbatim>\<open>range\<close> loops.
\<close>

definition twoFoo :: Lever where
  "twoFoo = Add (Add (New ''app'' None) (ParamNamed ''--foo'')) (ParamNamed ''-foo'')"

definition twoFoo' :: Lever where
  "twoFoo' = Add (Add (New ''app'' None) (ParamNamed ''-foo'')) (ParamNamed ''--foo'')"

section \<open>Notions of the statements\<close>

text \<open>The value of the first source, in the order given, that has one.\<close>

fun firstPresent :: "'a option list \<Rightarrow> 'a option" where
  "firstPresent [] = None"
| "firstPresent (None # xs) = firstPresent xs"
| "firstPresent (Some v # xs) = Some v"

text \<open>
  An entry of a found mapping after the values \<open>vs\<close> have been appended to it one by one:
  unchanged when there is none, else the old sequence (empty when the key was missing)
  followed by \<open>vs\<close>.
\<close>

definition extend :: "string list option \<Rightarrow> string list \<Rightarrow> string list option" where
  "extend mo vs = (if vs = [] then mo else Some ((case mo of None \<Rightarrow> [] | Some us \<Rightarrow> us) @ vs))"

text \<open>
  The lines of a stream that end with a newline, in order, each with its newline. What
  follows the last newline is not among them.
\<close>

fun linesAcc :: "string \<Rightarrow> string \<Rightarrow> string list" where
  "linesAcc cur [] = []"
| "linesAcc cur (c # cs) =
     (if c = CHR 0x0A then (cur @ [c]) # linesAcc [] cs else linesAcc (cur @ [c]) cs)"

definition completeLines :: "string \<Rightarrow> string list" where
  "completeLines bs = linesAcc [] bs"

text \<open>
  The lines \<^verbatim>\<open>key: value\<close> among them: trimmed, not empty, not a comment, with a colon. The
  key is what stands before the first colon, the value what follows it, trimmed.
\<close>

definition keyValueLines :: "Unicode \<Rightarrow> string \<Rightarrow> (string \<times> string) list" where
  "keyValueLines U bs =
     map (\<lambda>t. (takeWhile (\<lambda>c. c \<noteq> CHR '':'') t,
               TrimSpace U (drop 1 (dropWhile (\<lambda>c. c \<noteq> CHR '':'') t))))
       (filter (\<lambda>t. t \<noteq> [] \<and> hd t \<noteq> CHR ''#'' \<and> CHR '':'' \<in> set t)
          (map (TrimSpace U) (completeLines bs)))"

text \<open>The values of the lines whose key the name \<open>n\<close> ends with, in the order of the lines.\<close>

definition valuesFor :: "Unicode \<Rightarrow> string \<Rightarrow> string \<Rightarrow> string list" where
  "valuesFor U n bs = map snd (filter (\<lambda>(k, v). suffix k n) (keyValueLines U bs))"

text \<open>A line that is not empty, not a comment and has no colon.\<close>

definition malformed :: "Unicode \<Rightarrow> string \<Rightarrow> bool" where
  "malformed U line =
     (let t = TrimSpace U line in t \<noteq> [] \<and> hd t \<noteq> CHR ''#'' \<and> CHR '':'' \<notin> set t)"

text \<open>
  The values of the environment entries \<^verbatim>\<open>KEY=VALUE\<close> whose \<^verbatim>\<open>KEY\<close> is \<open>key\<close>, in the order of
  the list.
\<close>

definition envValues :: "string \<Rightarrow> string list \<Rightarrow> string list" where
  "envValues key environ =
     map (\<lambda>e. drop 1 (dropWhile (\<lambda>c. c \<noteq> CHR ''='') e))
       (filter (\<lambda>e. takeWhile (\<lambda>c. c \<noteq> CHR ''='') e = key) environ)"

section \<open>Library facts\<close>

lemma dropWhile_sep_absent: "sep \<notin> set s \<Longrightarrow> dropWhile (\<lambda>c. c \<noteq> sep) s = []"
  by (induction s) auto

lemma takeWhile_sep_first: "sep \<notin> set a \<Longrightarrow> takeWhile (\<lambda>c. c \<noteq> sep) (a @ sep # b) = a"
  by (induction a) auto

lemma dropWhile_sep_first: "sep \<notin> set a \<Longrightarrow> dropWhile (\<lambda>c. c \<noteq> sep) (a @ sep # b) = sep # b"
  by (induction a) auto

lemma SplitN2_absent: "sep \<notin> set s \<Longrightarrow> SplitN2 s sep = [s]"
  by (simp add: SplitN2_def dropWhile_sep_absent)

lemma SplitN2_first: "sep \<notin> set a \<Longrightarrow> SplitN2 (a @ sep # b) sep = [a, b]"
  by (simp add: SplitN2_def dropWhile_sep_first takeWhile_sep_first)

lemma SplitN2_present:
  assumes "sep \<in> set s"
  shows "SplitN2 s sep = [takeWhile (\<lambda>c. c \<noteq> sep) s, drop 1 (dropWhile (\<lambda>c. c \<noteq> sep) s)]"
proof -
  from assms obtain a b where "s = a @ sep # b" "sep \<notin> set a"
    by (meson split_list_first)
  then show ?thesis
    by (simp add: SplitN2_first dropWhile_sep_first takeWhile_sep_first)
qed

lemma length_SplitN2: "length (SplitN2 s sep) = 2 \<longleftrightarrow> sep \<in> set s"
  by (cases "sep \<in> set s") (simp_all add: SplitN2_present SplitN2_absent)

text \<open>\<^verbatim>\<open>strings.HasSuffix(s, x)\<close> says that \<open>s\<close> ends with \<open>x\<close>.\<close>

lemma HasSuffix_iff_suffix: "HasSuffix s x \<longleftrightarrow> suffix x s"
proof
  assume "HasSuffix s x"
  then have "s = take (length s - length x) s @ x"
    by (metis HasSuffix_def append_take_drop_id)
  then show "suffix x s" by (metis suffixI)
next
  assume "suffix x s"
  then obtain zs where "s = zs @ x" by (auto simp: suffix_def)
  then show "HasSuffix s x" by (simp add: HasSuffix_def)
qed

lemma extend_Nil: "extend mo [] = mo"
  by (simp add: extend_def)

lemma extend_Cons:
  "extend (Some ((case mo of None \<Rightarrow> [] | Some us \<Rightarrow> us) @ [v])) vs = extend mo (v # vs)"
  by (simp add: extend_def)

lemma firstPresent_single: "firstPresent [x] = x"
  by (cases x) simp_all

section \<open>The registry is a map\<close>

text \<open>
  The keys of \<^verbatim>\<open>expected\<close> are distinct in every registry that \<^verbatim>\<open>New\<close> and \<^verbatim>\<open>Add\<close> build, and
  every parameter stands under its own name.
\<close>

lemma distinct_expected_Add:
  "distinct (map fst (expected f)) \<Longrightarrow> distinct (map fst (expected (Add f p)))"
  by (simp add: Add_def distinct_update)

lemma distinct_expected_New: "distinct (map fst (expected (New name ob)))"
  by (simp add: New_def Let_def distinct_expected_Add)

lemma set_update_subset: "set (AList.update k v al) \<subseteq> insert (k, v) (set al)"
  by (induction al) auto

lemma named_expected_Add:
  assumes "list_all (\<lambda>(n, q). Name q = n) (expected f)"
  shows "list_all (\<lambda>(n, q). Name q = n) (expected (Add f p))"
  using assms set_update_subset [of "Name p" p "expected f"]
  by (auto simp: Add_def list_all_iff)

lemma named_expected_New: "list_all (\<lambda>(n, q). Name q = n) (expected (New name ob))"
  by (simp add: New_def Let_def named_expected_Add)

section \<open>The two spellings of a value on the command line\<close>

lemma readCLI_loop_inline:
  assumes p: "map_of (expectedFull f) name = Some p" and nf: "\<not> Flag p"
    and eq: "CHR ''='' \<notin> set name" and dd: "name \<noteq> ''--''"
  shows "readCLI_loop f fnd rest ((name @ ''='' @ val) # args)
       = readCLI_loop f fnd rest (name # val # args)"
proof -
  have ne: "name @ ''='' @ val \<noteq> ''--''"
  proof
    assume "name @ ''='' @ val = ''--''"
    then have "CHR ''='' \<in> set ''--''" by (metis in_set_conv_decomp append_Cons)
    then show False by simp
  qed
  have s1: "SplitN2 (name @ ''='' @ val) CHR ''='' = [name, val]"
    using SplitN2_first [OF eq, of val] by simp
  have s2: "SplitN2 name CHR ''='' = [name]"
    using eq by (rule SplitN2_absent)
  have "readCLI_loop f fnd rest ((name @ ''='' @ val) # args)
      = readCLI_loop f (AList.update (Name p) (at fnd (Name p) @ [val]) fnd) rest args"
    using ne s1 p nf by (simp add: Let_def)
  moreover have "readCLI_loop f fnd rest (name # val # args)
      = readCLI_loop f (AList.update (Name p) (at fnd (Name p) @ [val]) fnd) rest args"
    using dd s2 p nf by (simp add: Let_def)
  ultimately show ?thesis by simp
qed

text \<open>
  C7, as stated, fails for a parameter named \<^verbatim>\<open>--\<close>: the name has no \<^verbatim>\<open>=\<close> and no white
  space and the parameter is not a flag, yet the token \<^verbatim>\<open>--=v\<close> sets it, while the tokens
  \<^verbatim>\<open>--\<close>, \<^verbatim>\<open>v\<close> end the options and leave \<^verbatim>\<open>v\<close> in the remainder.
\<close>

theorem readCLI_inline_value_counterexample:
  "map_of (expectedFull dashLever) ''--'' = Some (ParamNamed ''--'')
   \<and> \<not> Flag (ParamNamed ''--'')
   \<and> readCLI dashLever [''--=v''] = ([(''--'', [''v''])], [])
   \<and> readCLI dashLever [''--'', ''v''] = ([], [''v''])"
  by code_simp

text \<open>
  C7, amended. For every name or alias of a parameter that is not a flag, with no \<^verbatim>\<open>=\<close>
  in it and other than the token \<^verbatim>\<open>--\<close>, and for every value, \<^verbatim>\<open>readCLI\<close> gives the same
  found mapping and the same remainder for the token \<^verbatim>\<open>name=value\<close> as for the two tokens
  \<^verbatim>\<open>name\<close>, \<^verbatim>\<open>value\<close>, whatever tokens follow.
\<close>

theorem readCLI_inline_value:
  assumes "map_of (expectedFull f) name = Some p" and "\<not> Flag p"
    and "CHR ''='' \<notin> set name" and "name \<noteq> ''--''"
  shows "readCLI f ((name @ ''='' @ val) # args) = readCLI f (name # val # args)"
  unfolding readCLI_def using assms by (rule readCLI_loop_inline)

theorem readCLI_inline_value_witness:
  "map_of (expectedFull (testLever False)) ''-c''
     = Some ((ParamNamed ''--baz'')\<lparr>Aliases := [''-c''], Description := ''wut'', Default := ''wat''\<rparr>)
   \<and> \<not> Flag ((ParamNamed ''--baz'')\<lparr>Aliases := [''-c''], Description := ''wut'', Default := ''wat''\<rparr>)
   \<and> CHR ''='' \<notin> set ''-c'' \<and> ''-c'' \<noteq> ''--''
   \<and> readCLI (testLever False) [''-c=baz'', ''rest''] = readCLI (testLever False) [''-c'', ''baz'', ''rest'']
   \<and> readCLI (testLever False) [''-c=baz'', ''rest''] = ([(''--baz'', [''baz''])], [''rest''])"
proof -
  have h1: "map_of (expectedFull (testLever False)) ''-c''
     = Some ((ParamNamed ''--baz'')\<lparr>Aliases := [''-c''], Description := ''wut'', Default := ''wat''\<rparr>)"
    by code_simp
  have h2: "\<not> Flag ((ParamNamed ''--baz'')\<lparr>Aliases := [''-c''], Description := ''wut'', Default := ''wat''\<rparr>)"
    by code_simp
  have h3: "CHR ''='' \<notin> set ''-c''" by simp
  have h4: "''-c'' \<noteq> ''--''" by simp
  have v: "readCLI (testLever False) [''-c=baz'', ''rest''] = ([(''--baz'', [''baz''])], [''rest''])"
    by code_simp
  from readCLI_inline_value [OF h1 h2 h3 h4, of "''baz''" "[''rest'']"] h1 h2 v
  show ?thesis by simp
qed

section \<open>The lines of the configuration file\<close>

text \<open>One turn of the loop of \<^verbatim>\<open>readConfig\<close>: the stream has a newline, or it has none.\<close>

lemma readConfig_loop_line:
  assumes "bytes rr = a @ CHR 0x0A # b" and "CHR 0x0A \<notin> set a" and "t = TrimSpace U (a @ [CHR 0x0A])"
  shows "readConfig_loop U f fnd rr =
        (if t = [] \<or> hd t = CHR ''#'' then readConfig_loop U f fnd (rr\<lparr>bytes := b\<rparr>)
         else if length (SplitN2 t CHR '':'') \<noteq> 2 then Inl (CouldNotParseLine t)
         else readConfig_loop U f
                (appendMatching (SplitN2 t CHR '':'' ! 0) (TrimSpace U (SplitN2 t CHR '':'' ! 1))
                   (expected f) fnd) (rr\<lparr>bytes := b\<rparr>))"
proof -
  have "ReadString rr CHR 0x0A = (a @ [CHR 0x0A], None, rr\<lparr>bytes := b\<rparr>)"
    using assms(1,2) by (simp add: ReadString_def dropWhile_sep_first takeWhile_sep_first)
  then show ?thesis
    by (subst readConfig_loop.simps) (simp add: Let_def assms(3))
qed

lemma readConfig_loop_end:
  assumes "CHR 0x0A \<notin> set (bytes rr)"
  shows "readConfig_loop U f fnd rr = (if fails rr then Inl ReadFailed else Inr fnd)"
proof -
  have "ReadString rr CHR 0x0A
      = (bytes rr, Some (if fails rr then IOError else EOF), rr\<lparr>bytes := []\<rparr>)"
    by (simp add: ReadString_def dropWhile_sep_absent [OF assms])
  then show ?thesis
    by (subst readConfig_loop.simps) simp
qed

lemma map_of_appendMatching:
  assumes "distinct (map fst ps)"
  shows "map_of (appendMatching name val ps fnd) n
       = (if n \<in> fst ` set ps \<and> HasSuffix n name then Some (at fnd n @ [val]) else map_of fnd n)"
  using assms
proof (induction ps arbitrary: fnd)
  case Nil
  then show ?case by (simp add: appendMatching_def)
next
  case (Cons e ps)
  obtain k p where e: "e = (k, p)" by (cases e)
  from Cons.prems e have d: "distinct (map fst ps)" and k: "k \<notin> fst ` set ps" by auto
  let ?fnd' = "if \<not> HasSuffix k name then fnd else AList.update k (at fnd k @ [val]) fnd"
  have unf: "appendMatching name val (e # ps) fnd = appendMatching name val ps ?fnd'"
    by (simp add: appendMatching_def e)
  have ih: "map_of (appendMatching name val ps ?fnd') n
       = (if n \<in> fst ` set ps \<and> HasSuffix n name then Some (at ?fnd' n @ [val]) else map_of ?fnd' n)"
    using Cons.IH [OF d] .
  show ?case
  proof (cases "n = k")
    case True
    with k ih unf e show ?thesis by (simp add: update_conv' at_def)
  next
    case False
    then have "at ?fnd' n = at fnd n" "map_of ?fnd' n = map_of fnd n"
      by (simp_all add: update_conv' at_def)
    with False ih unf e show ?thesis by simp
  qed
qed

lemma linesAcc_first:
  "CHR 0x0A \<notin> set a \<Longrightarrow> linesAcc cur (a @ CHR 0x0A # b) = (cur @ a @ [CHR 0x0A]) # linesAcc [] b"
  by (induction a arbitrary: cur) auto

lemma linesAcc_none: "CHR 0x0A \<notin> set a \<Longrightarrow> linesAcc cur a = []"
  by (induction a arbitrary: cur) auto

lemma valuesFor_none: "CHR 0x0A \<notin> set a \<Longrightarrow> valuesFor U n a = []"
  by (simp add: valuesFor_def keyValueLines_def completeLines_def linesAcc_none)

lemma valuesFor_first:
  assumes "CHR 0x0A \<notin> set a" and "t = TrimSpace U (a @ [CHR 0x0A])"
  shows "valuesFor U n (a @ CHR 0x0A # b) =
    (if t \<noteq> [] \<and> hd t \<noteq> CHR ''#'' \<and> CHR '':'' \<in> set t
        \<and> suffix (takeWhile (\<lambda>c. c \<noteq> CHR '':'') t) n
     then [TrimSpace U (drop 1 (dropWhile (\<lambda>c. c \<noteq> CHR '':'') t))] else []) @ valuesFor U n b"
  using assms
  by (simp add: valuesFor_def keyValueLines_def completeLines_def linesAcc_first)

lemma readConfig_loop_values:
  assumes dist: "distinct (map fst (expected f))" and key: "n \<in> fst ` set (expected f)"
  shows "readConfig_loop U f fnd rr = Inr out \<Longrightarrow>
         map_of out n = extend (map_of fnd n) (valuesFor U n (bytes rr))"
proof (induction "length (bytes rr)" arbitrary: rr fnd rule: less_induct)
  case less
  show ?case
  proof (cases "CHR 0x0A \<in> set (bytes rr)")
    case False
    with less.prems have "out = fnd"
      by (simp add: readConfig_loop_end split: if_splits)
    with False show ?thesis by (simp add: valuesFor_none extend_Nil)
  next
    case True
    then obtain a b where ab: "bytes rr = a @ CHR 0x0A # b" "CHR 0x0A \<notin> set a"
      by (meson split_list_first)
    define t where "t = TrimSpace U (a @ [CHR 0x0A])"
    define k where "k = takeWhile (\<lambda>c. c \<noteq> CHR '':'') t"
    define v where "v = TrimSpace U (drop 1 (dropWhile (\<lambda>c. c \<noteq> CHR '':'') t))"
    let ?rr' = "rr\<lparr>bytes := b\<rparr>"
    have ih: "readConfig_loop U f fnd' ?rr' = Inr out \<Longrightarrow>
              map_of out n = extend (map_of fnd' n) (valuesFor U n b)" for fnd'
      using less.hyps [of ?rr' fnd'] ab(1) by simp
    note unf = readConfig_loop_line [where f = f and fnd = fnd, OF ab t_def]
    have vf: "valuesFor U n (bytes rr) =
        (if t \<noteq> [] \<and> hd t \<noteq> CHR ''#'' \<and> CHR '':'' \<in> set t \<and> suffix k n then [v] else [])
        @ valuesFor U n b"
      using valuesFor_first [where n = n and b = b, OF ab(2) t_def] ab(1) by (simp add: k_def v_def)
    show ?thesis
    proof (cases "t = [] \<or> hd t = CHR ''#''")
      case skip: True
      with unf less.prems have "readConfig_loop U f fnd ?rr' = Inr out" by simp
      from ih [OF this] skip vf show ?thesis by auto
    next
      case line: False
      show ?thesis
      proof (cases "CHR '':'' \<in> set t")
        case False
        then have "length (SplitN2 t CHR '':'') \<noteq> 2" by (simp add: length_SplitN2)
        with unf line less.prems show ?thesis by simp
      next
        case colon: True
        then have len: "\<not> length (SplitN2 t CHR '':'') \<noteq> 2" by (simp add: length_SplitN2)
        have parts: "SplitN2 t CHR '':'' ! 0 = k" "TrimSpace U (SplitN2 t CHR '':'' ! 1) = v"
          by (simp_all add: SplitN2_present [OF colon] k_def v_def)
        let ?fnd' = "appendMatching k v (expected f) fnd"
        from unf line len parts less.prems
        have "readConfig_loop U f ?fnd' ?rr' = Inr out" by simp
        from ih [OF this]
        have "map_of out n = extend (map_of ?fnd' n) (valuesFor U n b)" .
        moreover have "map_of ?fnd' n = (if suffix k n then Some (at fnd n @ [v]) else map_of fnd n)"
          using key by (simp add: map_of_appendMatching [OF dist] HasSuffix_iff_suffix)
        ultimately show ?thesis
          using vf line colon by (auto simp: at_def extend_Cons extend_Nil)
      qed
    qed
  qed
qed

text \<open>
  The line \<^verbatim>\<open>-foo: x\<close> sets \<^verbatim>\<open>--foo\<close>, whose file-name form is \<^verbatim>\<open>foo\<close>, whatever the
  library computes on text that is not ASCII.
\<close>

lemma readConfig_dash_key_any_library:
  "configName U (ParamNamed ''--foo'') = ''foo''
   \<and> readConfig U (testLever False) \<lparr>bytes = ''-foo: x\<newline>'', fails = False\<rparr>
     = Inr [(''--foo'', [''x''])]"
  by code_simp

text \<open>
  C3, as stated, fails: the key of a line is compared with the canonical name \<^verbatim>\<open>n\<close> of the
  parameter (\<^verbatim>\<open>strings.HasSuffix(n, name)\<close>), not with its file-name form. The file-name form
  \<^verbatim>\<open>foo\<close> of \<^verbatim>\<open>--foo\<close> does not end with \<^verbatim>\<open>-foo\<close>, yet the line \<^verbatim>\<open>-foo: x\<close> sets \<^verbatim>\<open>--foo\<close>.
\<close>

theorem readConfig_matches_canonical_name_counterexample:
  "map_of (expected (testLever False)) ''--foo'' = Some (ParamNamed ''--foo'')
   \<and> configName noUnicode (ParamNamed ''--foo'') = ''foo''
   \<and> \<not> HasSuffix ''foo'' ''-foo''
   \<and> readConfig noUnicode (testLever False) \<lparr>bytes = ''-foo: x\<newline>'', fails = False\<rparr>
     = Inr [(''--foo'', [''x''])]"
  by code_simp

text \<open>
  C3, amended. Let the stream be empty or end with a newline, so that every line of it
  ends with a newline, and let \<^verbatim>\<open>readConfig\<close> return a mapping. Then for every declared
  parameter that is not excluded from the file and every line \<^verbatim>\<open>key: value\<close>, the key
  matches the parameter exactly when the parameter's canonical name ends with the key;
  the entry of the parameter is the sequence of the trimmed values of the matching lines,
  in line order, and there is no entry when no line matches. (The registry is a map: the
  keys of \<^verbatim>\<open>expected\<close> are distinct. Trimming is \<^verbatim>\<open>strings.TrimSpace\<close>, with \<open>U\<close> for what
  it does on text that is not ASCII.)
\<close>

theorem readConfig_matches_canonical_name:
  assumes "readConfig U f r = Inr fnd" and "bytes r = [] \<or> last (bytes r) = CHR 0x0A"
    and "distinct (map fst (expected f))"
    and "(n, p) \<in> set (expected f)" and "\<not> DisallowInConfigFile p"
  shows "map_of fnd n = (if valuesFor U n (bytes r) = [] then None else Some (valuesFor U n (bytes r)))"
proof -
  from assms(4) have "n \<in> fst ` set (expected f)" by force
  from readConfig_loop_values [OF assms(3) this assms(1) [unfolded readConfig_def]]
  show ?thesis by (simp add: extend_def)
qed

theorem readConfig_matches_canonical_name_witness:
  "readConfig noUnicode (testLever False)
     \<lparr>bytes = ''buz: a\<newline>-buz:b \<newline># buz: c\<newline>uz: d\<newline>flag1: true\<newline>'', fails = False\<rparr>
     = Inr [(''--buz'', [''a'', ''b'', ''d'']), (''--flag1'', [''true''])]
   \<and> last ''buz: a\<newline>-buz:b \<newline># buz: c\<newline>uz: d\<newline>flag1: true\<newline>'' = CHR 0x0A
   \<and> distinct (map fst (expected (testLever False)))
   \<and> (''--buz'', (ParamNamed ''--buz'')\<lparr>Aliases := [''-d''], Description := ''wut'',
                                         DefaultMulti := Some [''a'', ''b'', ''c'']\<rparr>)
       \<in> set (expected (testLever False))
   \<and> \<not> DisallowInConfigFile ((ParamNamed ''--buz'')\<lparr>Aliases := [''-d''], Description := ''wut'',
                                         DefaultMulti := Some [''a'', ''b'', ''c'']\<rparr>)
   \<and> valuesFor noUnicode ''--buz'' ''buz: a\<newline>-buz:b \<newline># buz: c\<newline>uz: d\<newline>flag1: true\<newline>''
     = [''a'', ''b'', ''d'']"
proof -
  let ?p = "(ParamNamed ''--buz'')\<lparr>Aliases := [''-d''], Description := ''wut'',
                                   DefaultMulti := Some [''a'', ''b'', ''c'']\<rparr>"
  let ?r = "\<lparr>bytes = ''buz: a\<newline>-buz:b \<newline># buz: c\<newline>uz: d\<newline>flag1: true\<newline>'', fails = False\<rparr>"
  have h1: "readConfig noUnicode (testLever False) ?r
     = Inr [(''--buz'', [''a'', ''b'', ''d'']), (''--flag1'', [''true''])]"
    by code_simp
  have h0: "last (bytes ?r) = CHR 0x0A" by simp
  then have h0': "bytes ?r = [] \<or> last (bytes ?r) = CHR 0x0A" by (rule disjI2)
  have h2: "distinct (map fst (expected (testLever False)))" by code_simp
  have h3: "(''--buz'', ?p) \<in> set (expected (testLever False))" by code_simp
  have h4: "\<not> DisallowInConfigFile ?p" by code_simp
  from readConfig_matches_canonical_name [OF h1 h0' h2 h3 h4] h0 h1 h2 h3 h4
  show ?thesis by (simp split: if_splits)
qed

text \<open>
  C4. A parameter with \<^verbatim>\<open>DisallowInConfigFile\<close> should get no value from the configuration
  file. \<^verbatim>\<open>readConfig\<close> never reads the field: in the registry of \<^verbatim>\<open>New\<close>, where \<^verbatim>\<open>--help\<close> is
  excluded from the file, the line \<^verbatim>\<open>help: true\<close> gives \<^verbatim>\<open>--help\<close> the value \<^verbatim>\<open>true\<close>.
\<close>

theorem readConfig_ignores_DisallowInConfigFile:
  "map_option DisallowInConfigFile (map_of (expected (New ''app'' None)) ''--help'') = Some True
   \<and> readConfig U (New ''app'' None) \<lparr>bytes = ''help: true\<newline>'', fails = False\<rparr>
     = Inr [(''--help'', [''true''])]"
  by code_simp

section \<open>Lines without a colon, and the last line\<close>

text \<open>A line without a colon that ends with a newline makes the parse fail, wherever it is.\<close>

lemma readConfig_loop_malformed:
  "bytes rr = pre @ l @ CHR 0x0A # post \<Longrightarrow> pre = [] \<or> last pre = CHR 0x0A \<Longrightarrow>
   CHR 0x0A \<notin> set l \<Longrightarrow> malformed U (l @ [CHR 0x0A]) \<Longrightarrow>
   \<exists>t. readConfig_loop U f fnd rr = Inl (CouldNotParseLine t)"
proof (induction "length pre" arbitrary: pre rr fnd rule: less_induct)
  case less
  show ?case
  proof (cases "pre = []")
    case True
    with less.prems have b: "bytes rr = l @ CHR 0x0A # post" by simp
    from less.prems(4) have "length (SplitN2 (TrimSpace U (l @ [CHR 0x0A])) CHR '':'') \<noteq> 2"
      by (simp add: malformed_def Let_def length_SplitN2)
    with less.prems(4) show ?thesis
      by (simp add: readConfig_loop_line [OF b less.prems(3) refl] malformed_def Let_def)
  next
    case False
    with less.prems(2) have "CHR 0x0A \<in> set pre" by (metis last_in_set)
    then obtain a pre' where pre: "pre = a @ CHR 0x0A # pre'" "CHR 0x0A \<notin> set a"
      by (meson split_list_first)
    with less.prems(2) have pre': "pre' = [] \<or> last pre' = CHR 0x0A" by (cases "pre' = []") auto
    let ?rr' = "rr\<lparr>bytes := pre' @ l @ CHR 0x0A # post\<rparr>"
    have b: "bytes rr = a @ CHR 0x0A # (pre' @ l @ CHR 0x0A # post)"
      using less.prems(1) pre by simp
    have ih: "\<exists>t. readConfig_loop U f fnd' ?rr' = Inl (CouldNotParseLine t)" for fnd'
      using less.hyps [of pre' ?rr' fnd'] pre pre' less.prems(3,4) by simp
    show ?thesis
      using ih by (auto simp: readConfig_loop_line [OF b pre(2) refl])
  qed
qed

lemma readConfig_malformed_line:
  assumes "pre = [] \<or> last pre = CHR 0x0A" and "CHR 0x0A \<notin> set l" and "malformed U (l @ [CHR 0x0A])"
  shows "\<exists>t. readConfig U f \<lparr>bytes = pre @ l @ CHR 0x0A # post, fails = b\<rparr> = Inl (CouldNotParseLine t)"
  unfolding readConfig_def
  by (rule readConfig_loop_malformed [OF _ assms]) simp

text \<open>
  C5. A stream with a line that is not empty, not a comment and has no colon should make
  the parse fail. The last line of a stream, when no newline ends it, is dropped before
  it is looked at (\<^verbatim>\<open>ReadString\<close> returns it together with \<^verbatim>\<open>io.EOF\<close>, and the loop leaves
  on \<^verbatim>\<open>io.EOF\<close>): for such a line the parse succeeds, and returns the values of the lines
  before it.
\<close>

theorem readConfig_accepts_unterminated_malformed_line:
  "malformed U ''garbage''
   \<and> readConfig U (testLever False) \<lparr>bytes = ''garbage'', fails = False\<rparr> = Inr []
   \<and> readConfig U (testLever False) \<lparr>bytes = ''foo: a\<newline>garbage'', fails = False\<rparr>
     = Inr [(''--foo'', [''a''])]"
  by code_simp

lemma readConfig_loop_tail:
  assumes "CHR 0x0A \<notin> set tail"
  shows "readConfig_loop U f fnd (rr\<lparr>bytes := bytes rr @ tail\<rparr>) = readConfig_loop U f fnd rr"
proof (induction "length (bytes rr)" arbitrary: rr fnd rule: less_induct)
  case less
  show ?case
  proof (cases "CHR 0x0A \<in> set (bytes rr)")
    case False
    with assms have "CHR 0x0A \<notin> set (bytes (rr\<lparr>bytes := bytes rr @ tail\<rparr>))" by simp
    from readConfig_loop_end [OF this] readConfig_loop_end [OF False] show ?thesis by simp
  next
    case True
    then obtain a b where ab: "bytes rr = a @ CHR 0x0A # b" "CHR 0x0A \<notin> set a"
      by (meson split_list_first)
    let ?rr' = "rr\<lparr>bytes := b\<rparr>"
    have ih: "readConfig_loop U f fnd' (rr\<lparr>bytes := b @ tail\<rparr>) = readConfig_loop U f fnd' ?rr'" for fnd'
      using less.hyps [of ?rr' fnd'] ab(1) by simp
    have b2: "bytes (rr\<lparr>bytes := bytes rr @ tail\<rparr>) = a @ CHR 0x0A # (b @ tail)"
      using ab(1) by simp
    from readConfig_loop_line [where U = U and f = f and fnd = fnd, OF ab refl]
      readConfig_loop_line [where U = U and f = f and fnd = fnd, OF b2 ab(2) refl] ih
    show ?thesis by simp
  qed
qed

text \<open>
  C9. What follows the last newline of the stream (a last line that no newline ends) is
  ignored: the result, mapping or error, is that of the stream without it. Nothing of
  that line is in the mapping, and no error is reported for it.
\<close>

theorem readConfig_drops_unterminated_line:
  assumes "CHR 0x0A \<notin> set tail"
  shows "readConfig U f \<lparr>bytes = s @ tail, fails = b\<rparr> = readConfig U f \<lparr>bytes = s, fails = b\<rparr>"
  using readConfig_loop_tail [OF assms, where U = U and f = f and fnd = "[]"
      and rr = "\<lparr>bytes = s, fails = b\<rparr>"]
  by (simp add: readConfig_def)

theorem readConfig_drops_unterminated_line_witness:
  "CHR 0x0A \<notin> set ''bar: b''
   \<and> readConfig noUnicode (testLever False) \<lparr>bytes = ''foo: a\<newline>'' @ ''bar: b'', fails = False\<rparr>
     = readConfig noUnicode (testLever False) \<lparr>bytes = ''foo: a\<newline>'', fails = False\<rparr>
   \<and> readConfig noUnicode (testLever False) \<lparr>bytes = ''foo: a\<newline>bar: b'', fails = False\<rparr>
     = Inr [(''--foo'', [''a''])]"
proof -
  have h: "CHR 0x0A \<notin> set ''bar: b''" by simp
  have v: "readConfig noUnicode (testLever False) \<lparr>bytes = ''foo: a\<newline>bar: b'', fails = False\<rparr>
     = Inr [(''--foo'', [''a''])]" by code_simp
  from readConfig_drops_unterminated_line [OF h, where U = noUnicode and f = "testLever False"
      and s = "''foo: a\<newline>''" and b = False] h v
  show ?thesis by simp
qed

section \<open>The keys of the environment\<close>

lemma map_of_fold_envKey:
  "map_of (fold (\<lambda>(n, p) m. AList.update (envKey U f p) p m) ps m) k = Some q \<Longrightarrow>
   (\<exists>n. (n, q) \<in> set ps \<and> envKey U f q = k) \<or> map_of m k = Some q"
proof (induction ps arbitrary: m)
  case Nil
  then show ?case by simp
next
  case (Cons e ps)
  obtain n p where e: "e = (n, p)" by (cases e)
  from Cons.prems e
  have "map_of (fold (\<lambda>(n, p) m. AList.update (envKey U f p) p m) ps
                  (AList.update (envKey U f p) p m)) k = Some q"
    by simp
  from Cons.IH [OF this]
  show ?case by (auto simp: e update_conv' split: if_splits)
qed

lemma dom_fold_envKey:
  "map_of m k \<noteq> None \<or> (\<exists>(n, q) \<in> set ps. envKey U f q = k) \<Longrightarrow>
   map_of (fold (\<lambda>(n, p) m. AList.update (envKey U f p) p m) ps m) k \<noteq> None"
proof (induction ps arbitrary: m)
  case Nil
  then show ?case by simp
next
  case (Cons e ps)
  obtain n p where e: "e = (n, p)" by (cases e)
  from Cons.prems e
  have "map_of (AList.update (envKey U f p) p m) k \<noteq> None \<or> (\<exists>(n, q) \<in> set ps. envKey U f q = k)"
    by (auto simp: update_conv')
  from Cons.IH [OF this] show ?case by (simp add: e)
qed

lemma expectedEnv_declared:
  "map_of (expectedEnv U f) k = Some q \<Longrightarrow> (\<exists>n. (n, q) \<in> set (expected f)) \<and> envKey U f q = k"
  using map_of_fold_envKey [where U = U and f = f and ps = "expected f" and m = "[]" and k = k and q = q] by (auto simp: expectedEnv_def)

lemma expectedEnv_has_key:
  "(n, p) \<in> set (expected f) \<Longrightarrow> \<exists>q. map_of (expectedEnv U f) (envKey U f p) = Some q"
  using dom_fold_envKey [where U = U and f = f and ps = "expected f" and m = "[]" and k = "envKey U f p"] by (auto simp: expectedEnv_def)

lemma envKey_cong: "Name q = Name p \<Longrightarrow> envKey U f q = envKey U f p"
  by (simp add: envKey_def configName_def)

lemma expectedEnv_lookup:
  assumes "(n, p) \<in> set (expected f)"
    and "\<forall>(n', q) \<in> set (expected f). envKey U f q = envKey U f p \<longrightarrow> Name q = Name p"
  shows "(\<exists>q. map_of (expectedEnv U f) k = Some q \<and> Name q = Name p) \<longleftrightarrow> k = envKey U f p"
proof
  assume "\<exists>q. map_of (expectedEnv U f) k = Some q \<and> Name q = Name p"
  then obtain q where q: "map_of (expectedEnv U f) k = Some q" "Name q = Name p" by blast
  from expectedEnv_declared [OF q(1)] envKey_cong [OF q(2)] show "k = envKey U f p" by simp
next
  assume k: "k = envKey U f p"
  from expectedEnv_has_key [OF assms(1)]
  obtain q where q: "map_of (expectedEnv U f) (envKey U f p) = Some q" by blast
  from expectedEnv_declared [OF q] assms(2) have "Name q = Name p" by auto
  with q k show "\<exists>q. map_of (expectedEnv U f) k = Some q \<and> Name q = Name p" by blast
qed

lemma readEnv_loop_values:
  assumes R: "\<And>k. (\<exists>q. map_of ee k = Some q \<and> Name q = nm) \<longleftrightarrow> k = key"
  shows "list_all (\<lambda>e. CHR ''='' \<in> set e) environ \<Longrightarrow>
         \<exists>out. readEnv_loop ee fnd environ = Inr out \<and>
               map_of out nm = extend (map_of fnd nm) (envValues key environ)"
proof (induction environ arbitrary: fnd)
  case Nil
  then show ?case by (simp add: envValues_def extend_Nil)
next
  case (Cons env environ)
  from Cons.prems have eq: "CHR ''='' \<in> set env"
    and rest: "list_all (\<lambda>e. CHR ''='' \<in> set e) environ"
    by simp_all
  define k where "k = takeWhile (\<lambda>c. c \<noteq> CHR ''='') env"
  define v where "v = drop 1 (dropWhile (\<lambda>c. c \<noteq> CHR ''='') env)"
  have sp: "SplitN2 env CHR ''='' = [k, v]"
    using SplitN2_present [OF eq] by (simp add: k_def v_def)
  have ev: "envValues key (env # environ) = (if k = key then [v] else []) @ envValues key environ"
    by (simp add: envValues_def k_def v_def)
  show ?case
  proof (cases "map_of ee k")
    case None
    with R [of k] have "k \<noteq> key" by auto
    with Cons.IH [OF rest, of fnd] sp None ev show ?thesis by simp
  next
    case (Some q)
    let ?fnd' = "AList.update (Name q) (at fnd (Name q) @ [v]) fnd"
    from Cons.IH [OF rest, of ?fnd'] obtain out where
      out: "readEnv_loop ee ?fnd' environ = Inr out"
           "map_of out nm = extend (map_of ?fnd' nm) (envValues key environ)" by blast
    have run: "readEnv_loop ee fnd (env # environ) = Inr out"
      using sp Some out(1) by simp
    show ?thesis
    proof (cases "Name q = nm")
      case True
      with R [of k] Some have "k = key" by auto
      with True out(2) ev run show ?thesis
        by (simp add: update_conv' at_def extend_Cons)
    next
      case False
      with R [of k] Some have "k \<noteq> key" by auto
      with False out(2) ev run show ?thesis by (simp add: update_conv')
    qed
  qed
qed

text \<open>
  The parameters \<^verbatim>\<open>--foo\<close> and \<^verbatim>\<open>-foo\<close> have the same key, and the one entry \<^verbatim>\<open>APP_FOO=x\<close>
  sets only the one that the loop visits last, whatever the library computes on text that
  is not ASCII.
\<close>

lemma readEnv_shared_key_any_library:
  "envKey U twoFoo (ParamNamed ''--foo'') = ''APP_FOO''
   \<and> envKey U twoFoo (ParamNamed ''-foo'') = ''APP_FOO''
   \<and> readEnv U twoFoo [''APP_FOO=x''] = Inr [(''-foo'', [''x''])]
   \<and> readEnv U twoFoo' [''APP_FOO=x''] = Inr [(''--foo'', [''x''])]"
  by code_simp

text \<open>
  C6, as stated, fails when two declared parameters have the same key: \<^verbatim>\<open>expectedEnv\<close> keeps
  one parameter for a key, the one the \<^verbatim>\<open>range\<close> loop visits last. For \<^verbatim>\<open>--foo\<close> and
  \<^verbatim>\<open>-foo\<close> the key of both is \<^verbatim>\<open>APP_FOO\<close>, and in either order of the loop one of the two gets
  no value from the entry \<^verbatim>\<open>APP_FOO=x\<close>.
\<close>

theorem readEnv_exact_key_counterexample:
  "map_of (expected twoFoo) ''--foo'' = Some (ParamNamed ''--foo'')
   \<and> map_of (expected twoFoo) ''-foo'' = Some (ParamNamed ''-foo'')
   \<and> map_of (expected twoFoo') ''--foo'' = Some (ParamNamed ''--foo'')
   \<and> map_of (expected twoFoo') ''-foo'' = Some (ParamNamed ''-foo'')
   \<and> envKey noUnicode twoFoo (ParamNamed ''--foo'') = ''APP_FOO''
   \<and> envKey noUnicode twoFoo (ParamNamed ''-foo'') = ''APP_FOO''
   \<and> readEnv noUnicode twoFoo [''APP_FOO=x''] = Inr [(''-foo'', [''x''])]
   \<and> readEnv noUnicode twoFoo' [''APP_FOO=x''] = Inr [(''--foo'', [''x''])]"
  by code_simp

text \<open>
  C6, amended. Let every entry of the environment list have a \<^verbatim>\<open>=\<close>, and let no declared
  parameter of another name have the key of the declared parameter \<open>p\<close>, where the key is
  the upper-cased application name, \<^verbatim>\<open>_\<close>, and the upper-cased file-name form of \<open>p\<close>, with
  every \<^verbatim>\<open>-\<close> replaced by \<^verbatim>\<open>_\<close> in both (upper case is \<^verbatim>\<open>strings.ToUpper\<close> and the
  file-name form is \<^verbatim>\<open>configName\<close>, with \<open>U\<close> for what the library does on text that is
  not ASCII). Then \<^verbatim>\<open>readEnv\<close> returns a mapping, and the entry of
  \<open>p\<close> is the sequence of the values of exactly the entries whose \<^verbatim>\<open>KEY\<close> equals the key of
  \<open>p\<close>, in the order of the list (no entry when there is none): no alias and no suffix
  matches.
\<close>

theorem readEnv_exact_key:
  assumes "list_all (\<lambda>e. CHR ''='' \<in> set e) environ"
    and "(n, p) \<in> set (expected f)"
    and "list_all (\<lambda>(n', q). envKey U f q = envKey U f p \<longrightarrow> Name q = Name p) (expected f)"
  shows "\<exists>fnd. readEnv U f environ = Inr fnd \<and>
           map_of fnd (Name p) =
             (if envValues (envKey U f p) environ = [] then None
              else Some (envValues (envKey U f p) environ))"
proof -
  from assms(3)
  have u: "\<forall>(n', q) \<in> set (expected f). envKey U f q = envKey U f p \<longrightarrow> Name q = Name p"
    by (simp add: list_all_iff)
  from readEnv_loop_values [of "expectedEnv U f" "Name p" "envKey U f p",
      OF expectedEnv_lookup [OF assms(2) u] assms(1), of "[]"]
  show ?thesis by (auto simp: readEnv_def extend_def)
qed

theorem readEnv_exact_key_witness:
  "list_all (\<lambda>e. CHR ''='' \<in> set e)
     [''TEST_APP_BAR=bar'', ''TEST_APP_FLAG1=true'', ''HOME=whatever'', ''TEST_APP_FOO_BAR=okthen'',
      ''TEST_APP_FOOBAR=x'', ''TEST_APP_FOO_BAR=again'']
   \<and> (''--foo-bar'', ParamNamed ''--foo-bar'') \<in> set (expected envLever)
   \<and> list_all (\<lambda>(n', q). envKey noUnicode envLever q = envKey noUnicode envLever (ParamNamed ''--foo-bar'')
                    \<longrightarrow> Name q = Name (ParamNamed ''--foo-bar'')) (expected envLever)
   \<and> envKey noUnicode envLever (ParamNamed ''--foo-bar'') = ''TEST_APP_FOO_BAR''
   \<and> (\<exists>fnd. readEnv noUnicode envLever
         [''TEST_APP_BAR=bar'', ''TEST_APP_FLAG1=true'', ''HOME=whatever'', ''TEST_APP_FOO_BAR=okthen'',
          ''TEST_APP_FOOBAR=x'', ''TEST_APP_FOO_BAR=again''] = Inr fnd
        \<and> map_of fnd ''--foo-bar'' = Some [''okthen'', ''again''])"
proof -
  let ?env = "[''TEST_APP_BAR=bar'', ''TEST_APP_FLAG1=true'', ''HOME=whatever'',
      ''TEST_APP_FOO_BAR=okthen'', ''TEST_APP_FOOBAR=x'', ''TEST_APP_FOO_BAR=again'']"
  have h1: "list_all (\<lambda>e. CHR ''='' \<in> set e) ?env" by simp
  have h2: "(''--foo-bar'', ParamNamed ''--foo-bar'') \<in> set (expected envLever)" by code_simp
  have h3: "list_all (\<lambda>(n', q). envKey noUnicode envLever q = envKey noUnicode envLever (ParamNamed ''--foo-bar'')
                    \<longrightarrow> Name q = Name (ParamNamed ''--foo-bar'')) (expected envLever)"
    by code_simp
  have k: "envKey noUnicode envLever (ParamNamed ''--foo-bar'') = ''TEST_APP_FOO_BAR''" by code_simp
  have v: "envValues ''TEST_APP_FOO_BAR'' ?env = [''okthen'', ''again'']" by code_simp
  have n: "Name (ParamNamed ''--foo-bar'') = ''--foo-bar''" by (simp add: ParamNamed_def)
  from readEnv_exact_key [OF h1 h2 h3] h1 h2 h3 k v n show ?thesis by simp
qed

section \<open>An environment entry without \<^verbatim>\<open>=\<close>\<close>

lemma readEnv_loop_panics:
  "list_ex (\<lambda>e. CHR ''='' \<notin> set e) environ \<Longrightarrow> readEnv_loop ee fnd environ = Inl IndexOutOfRange"
proof (induction environ arbitrary: fnd)
  case Nil
  then show ?case by simp
next
  case (Cons env environ)
  show ?case
  proof (cases "CHR ''='' \<in> set env")
    case True
    with Cons.prems have "list_ex (\<lambda>e. CHR ''='' \<notin> set e) environ" by simp
    then have "\<And>fnd. readEnv_loop ee fnd environ = Inl IndexOutOfRange" by (rule Cons.IH)
    then show ?thesis by (simp add: SplitN2_present [OF True] split: option.split)
  next
    case False
    then show ?thesis by (simp add: SplitN2_absent)
  qed
qed

text \<open>
  C10. When some entry of the environment list has no \<^verbatim>\<open>=\<close>, \<^verbatim>\<open>readEnv\<close> panics with an
  index out of range; it neither skips the entry nor returns a mapping.
\<close>

theorem readEnv_panics_without_equals:
  assumes "list_ex (\<lambda>e. CHR ''='' \<notin> set e) environ"
  shows "readEnv U f environ = Inl IndexOutOfRange"
  unfolding readEnv_def using assms by (rule readEnv_loop_panics)

theorem readEnv_panics_without_equals_witness:
  "list_ex (\<lambda>e. CHR ''='' \<notin> set e) [''TEST_APP_BAR=bar'', ''HOME'']
   \<and> readEnv noUnicode (testLever False) [''TEST_APP_BAR=bar'', ''HOME''] = Inl IndexOutOfRange"
proof -
  have h: "list_ex (\<lambda>e. CHR ''='' \<notin> set e) [''TEST_APP_BAR=bar'', ''HOME'']" by simp
  from readEnv_panics_without_equals [OF h] h show ?thesis by simp
qed

section \<open>Precedence of the sources\<close>

lemma map_of_mergeFound:
  "map_of (mergeFound into from) n
     = (case map_of into n of Some vs \<Rightarrow> Some vs | None \<Rightarrow> map_of from n)"
proof (induction "from" arbitrary: into)
  case Nil
  then show ?case by (simp split: option.split)
next
  case (Cons e "from")
  obtain k vs where e: "e = (k, vs)" by (cases e)
  show ?case unfolding e
    by (auto simp: Cons.IH update_conv' split: option.split)
qed

text \<open>
  C2. When \<^verbatim>\<open>Parse\<close> returns, the final mapping holds for every parameter name the whole
  sequence of the first of the four sources that has one for it: the command line, then
  the environment, then the configuration file (the result of \<^verbatim>\<open>maybeReadConfig\<close>, no
  source when configuration files are disallowed), then the defaults. Nothing of a
  source of lower precedence is mixed in.
\<close>

theorem Parse_precedence:
  assumes "Parse U f args environ fs = Returned f'"
  shows "\<exists>foundEnv foundConfig.
           readEnv U f environ = Inr foundEnv \<and>
           (if \<not> DisallowConfigFile (opts f)
            then maybeReadConfig U f (mergeFound (fst (readCLI f args)) foundEnv) fs
            else Inr []) = Inr foundConfig \<and>
           map_of (found f') n =
             firstPresent [map_of (fst (readCLI f args)) n, map_of foundEnv n,
                           map_of foundConfig n, map_of (defaultsAsFound f) n]"
proof -
  obtain fnd rest where cli: "readCLI f args = (fnd, rest)" by (cases "readCLI f args")
  from assms cli obtain foundEnv where env: "readEnv U f environ = Inr foundEnv"
    by (auto simp: Parse_def split: sum.splits bool.splits)
  let ?cfg = "if \<not> DisallowConfigFile (opts f)
            then maybeReadConfig U f (mergeFound fnd foundEnv) fs else Inr []"
  from assms cli env obtain foundConfig where cfg: "?cfg = Inr foundConfig"
    by (cases ?cfg) (auto simp: Parse_def split: sum.splits bool.splits failure.splits)
  from assms cli env cfg
  have "f' = f\<lparr>found := mergeFound (mergeFound (mergeFound fnd foundEnv) foundConfig)
                          (defaultsAsFound f), remaining := rest\<rparr>"
    by (auto simp: Parse_def split: sum.splits bool.splits failure.splits)
  then have "map_of (found f') n =
             firstPresent [map_of fnd n, map_of foundEnv n,
                           map_of foundConfig n, map_of (defaultsAsFound f) n]"
    by (simp add: map_of_mergeFound firstPresent_single split: option.split)
  with env cfg cli show ?thesis by auto
qed

theorem Parse_precedence_witness:
  "Parse noUnicode (testLever False)
     [''-c'', ''baz'', ''--buz=buz'', ''--buz'', ''buz2'', ''--config'', ''app.conf'']
     [''TEST_APP_BUZ=envbuz'', ''TEST_APP_FOO=envfoo''] oneFile
   = Returned ((testLever False)
       \<lparr>found := [(''--baz'', [''baz'']), (''--buz'', [''buz'', ''buz2'']),
                  (''--config'', [''app.conf'']), (''--foo'', [''envfoo'']),
                  (''--bar'', [''filebar'']), (''--byz'', [])],
        remaining := []\<rparr>)
   \<and> (\<exists>foundEnv foundConfig.
        readEnv noUnicode (testLever False) [''TEST_APP_BUZ=envbuz'', ''TEST_APP_FOO=envfoo''] = Inr foundEnv \<and>
        (if \<not> DisallowConfigFile (opts (testLever False))
         then maybeReadConfig noUnicode (testLever False)
                (mergeFound
                   (fst (readCLI (testLever False)
                      [''-c'', ''baz'', ''--buz=buz'', ''--buz'', ''buz2'', ''--config'', ''app.conf'']))
                   foundEnv) oneFile
         else Inr []) = Inr foundConfig \<and>
        Some [''buz'', ''buz2''] =
          firstPresent
            [map_of (fst (readCLI (testLever False)
                       [''-c'', ''baz'', ''--buz=buz'', ''--buz'', ''buz2'', ''--config'', ''app.conf''])) ''--buz'',
             map_of foundEnv ''--buz'', map_of foundConfig ''--buz'',
             map_of (defaultsAsFound (testLever False)) ''--buz''])"
proof -
  have h: "Parse noUnicode (testLever False)
     [''-c'', ''baz'', ''--buz=buz'', ''--buz'', ''buz2'', ''--config'', ''app.conf'']
     [''TEST_APP_BUZ=envbuz'', ''TEST_APP_FOO=envfoo''] oneFile
   = Returned ((testLever False)
       \<lparr>found := [(''--baz'', [''baz'']), (''--buz'', [''buz'', ''buz2'']),
                  (''--config'', [''app.conf'']), (''--foo'', [''envfoo'']),
                  (''--bar'', [''filebar'']), (''--byz'', [])],
        remaining := []\<rparr>)"
    by code_simp
  from Parse_precedence [OF h, where n = "''--buz''"] h show ?thesis by simp
qed

section \<open>The accessors\<close>

text \<open>
  C1. A flag declared with the default \<^verbatim>\<open>"true"\<close> should read \<^verbatim>\<open>false\<close> when it is given
  on the command line and \<^verbatim>\<open>true\<close> when no source mentions it. The program does the
  opposite. Given on the command line, \<^verbatim>\<open>readCLI\<close> records \<^verbatim>\<open>"false"\<close>, which \<^verbatim>\<open>ParamFlag\<close>
  takes as "not set" and answers with the default, \<^verbatim>\<open>true\<close>. Given nowhere, the default
  \<^verbatim>\<open>"true"\<close> itself is recorded, which \<^verbatim>\<open>ParamFlag\<close> takes as "set" and answers with the
  negated default, \<^verbatim>\<open>false\<close>. The environment is empty and there is no configuration file.
\<close>

theorem ParamFlag_default_true_is_inverted:
  "Parse U colorLever [''--color''] [] noFiles
     = Returned (colorLever\<lparr>found := [(''--color'', [''false''])], remaining := []\<rparr>)
   \<and> ParamFlag (colorLever\<lparr>found := [(''--color'', [''false''])], remaining := []\<rparr>) ''--color''
     = Inr True
   \<and> Parse U colorLever [] [] noFiles
     = Returned (colorLever\<lparr>found := [(''--color'', [''true''])], remaining := []\<rparr>)
   \<and> ParamFlag (colorLever\<lparr>found := [(''--color'', [''true''])], remaining := []\<rparr>) ''--color''
     = Inr False"
  by code_simp

text \<open>
  C8. There are a registry and inputs for which a parameter's sequence in the final
  mapping is empty and \<^verbatim>\<open>ParamStr\<close> and \<^verbatim>\<open>ParamInt\<close> panic with an index out of range
  instead of reporting "not found": the test registry, whose \<^verbatim>\<open>--byz\<close> has the empty
  \<^verbatim>\<open>DefaultMulti\<close>, with no argument, an empty environment and no file.
\<close>

theorem ParamStr_panics_on_empty_default:
  "\<exists>f'. Parse U (testLever False) [] [] noFiles = Returned f'
       \<and> map_of (found f') ''--byz'' = Some []
       \<and> ParamStr f' ''--byz'' = Inl IndexOutOfRange
       \<and> ParamInt f' ''--byz'' = Inl IndexOutOfRange"
proof -
  let ?f = "(testLever False)
              \<lparr>found := [(''--baz'', [''wat'']), (''--buz'', [''a'', ''b'', ''c'']), (''--byz'', [])],
               remaining := []\<rparr>"
  have "Parse U (testLever False) [] [] noFiles = Returned ?f" by code_simp
  moreover have "map_of (found ?f) ''--byz'' = Some []" by simp
  moreover have "ParamStr ?f ''--byz'' = Inl IndexOutOfRange"
    by (simp add: ParamStr_def paramSingleStr_def)
  moreover have "ParamInt ?f ''--byz'' = Inl IndexOutOfRange"
    by (simp add: ParamInt_def paramSingleStr_def)
  ultimately show ?thesis by blast
qed

end
